theory Spec2Isabelle
  imports Main
begin

section \<open>The CAIDA collector: strings, classification, cache and fetch\<close>

text \<open>
  A shallow embedding of \<^verbatim>\<open>lib_caida_collector/caida_collector.py\<close>.
  Lines are ASCII text (\<open>string\<close>); Python exceptions are values of \<open>py_error\<close> and a
  function that may raise returns \<open>py_error + 'a\<close>, with \<open>Inl\<close> the exception.
\<close>

subsection \<open>Python exceptions\<close>

datatype py_error =
    ValueError          \<comment> \<open>\<^verbatim>\<open>int()\<close> on a bad literal; unpacking a list of the wrong length\<close>
  | IndexError          \<comment> \<open>\<^verbatim>\<open>[...][0]\<close> on an empty list\<close>
  | FileNotFoundError   \<comment> \<open>opening a missing file for reading\<close>
  | ExternalError string  \<comment> \<open>whatever a collaborator outside the module raises\<close>

subsection \<open>Python string operations\<close>

text \<open>\<^verbatim>\<open>s.startswith(p)\<close>\<close>

fun startswith :: "string \<Rightarrow> string \<Rightarrow> bool" where
  "startswith s [] = True"
| "startswith [] (p # ps) = False"
| "startswith (c # cs) (p # ps) = (c = p \<and> startswith cs ps)"

text \<open>\<^verbatim>\<open>sub in s\<close>: \<open>sub\<close> occurs somewhere in \<open>s\<close> as a contiguous substring.\<close>

fun str_contains :: "string \<Rightarrow> string \<Rightarrow> bool" where
  "str_contains sub [] = (sub = [])"
| "str_contains sub (c # cs) = (startswith (c # cs) sub \<or> str_contains sub cs)"

text \<open>
  \<^verbatim>\<open>s.split(sep)\<close> for a one-character separator: every occurrence of the separator
  ends a piece, so the result is never empty and adjacent separators give empty pieces.
  \<open>cur\<close> is the piece being read.
\<close>

fun split_from :: "char \<Rightarrow> string \<Rightarrow> string \<Rightarrow> string list" where
  "split_from sep cur [] = [cur]"
| "split_from sep cur (c # cs) =
     (if c = sep then cur # split_from sep [] cs else split_from sep (cur @ [c]) cs)"

definition split :: "string \<Rightarrow> char \<Rightarrow> string list" where
  "split s sep = split_from sep [] s"

text \<open>
  The ASCII characters Python's \<^verbatim>\<open>str.isspace\<close> accepts: tab, line feed, vertical tab,
  form feed, carriage return, the four separators 0x1C to 0x1F, and the space.
\<close>

definition isspace :: "char \<Rightarrow> bool" where
  "isspace c = (c \<in> {CHR 0x09, CHR 0x0A, CHR 0x0B, CHR 0x0C, CHR 0x0D,
                      CHR 0x1C, CHR 0x1D, CHR 0x1E, CHR 0x1F, CHR '' ''})"

text \<open>\<^verbatim>\<open>s.strip()\<close>\<close>

definition strip :: "string \<Rightarrow> string" where
  "strip s = rev (dropWhile isspace (rev (dropWhile isspace s)))"

text \<open>The ASCII digits are the characters with codes 48 to 57.\<close>

definition isdigit :: "char \<Rightarrow> bool" where
  "isdigit c = (48 \<le> (of_char c :: nat) \<and> (of_char c :: nat) \<le> 57)"

definition digit_val :: "char \<Rightarrow> nat" where
  "digit_val c = of_char c - 48"

text \<open>
  The digit part of a decimal literal: digits, with single underscores allowed between
  two digits. \<open>prev\<close> says that the character just read was a digit; \<open>acc\<close> is the value
  read so far.
\<close>

fun py_digits :: "bool \<Rightarrow> nat \<Rightarrow> string \<Rightarrow> nat option" where
  "py_digits prev acc [] = (if prev then Some acc else None)"
| "py_digits prev acc (c # cs) =
     (if isdigit c then py_digits True (10 * acc + digit_val c) cs
      else if c = CHR ''_'' \<and> prev then py_digits False acc cs
      else None)"

text \<open>
  The characters \<^verbatim>\<open>int()\<close> skips before and after a literal in an ASCII string: tab,
  line feed, vertical tab, form feed, carriage return and the space. The separators 0x1C
  to 0x1F, which \<^verbatim>\<open>str.strip\<close> removes, are not among them.
\<close>

definition int_space :: "char \<Rightarrow> bool" where
  "int_space c = (c \<in> {CHR 0x09, CHR 0x0A, CHR 0x0B, CHR 0x0C, CHR 0x0D, CHR '' ''})"

definition int_strip :: "string \<Rightarrow> string" where
  "int_strip s = rev (dropWhile int_space (rev (dropWhile int_space s)))"

text \<open>The default of \<^verbatim>\<open>sys.get_int_max_str_digits()\<close>.\<close>

definition int_max_str_digits :: nat where
  "int_max_str_digits = 4300"

text \<open>
  \<^verbatim>\<open>int(s)\<close> on a string: the surrounding whitespace is skipped, one sign is allowed,
  the rest must be a digit part of at most \<open>int_max_str_digits\<close> digits; anything else
  raises \<^verbatim>\<open>ValueError\<close>.
\<close>

definition py_int :: "string \<Rightarrow> py_error + int" where
  "py_int s =
     (case int_strip s of
        [] \<Rightarrow> Inl ValueError
      | c # cs \<Rightarrow>
          (let body = (if c = CHR ''-'' \<or> c = CHR ''+'' then cs else c # cs) in
           if int_max_str_digits < length (filter isdigit body) then Inl ValueError
           else
             (case py_digits False 0 body of
                None \<Rightarrow> Inl ValueError
              | Some n \<Rightarrow> Inr (if c = CHR ''-'' then - int n else int n))))"

subsection \<open>The link classes\<close>

text \<open>
  Modelled from the spec: class \<^verbatim>\<open>CustomerProviderLink\<close> (module
  \<^verbatim>\<open>customer_provider_link\<close>, imported as \<^verbatim>\<open>CPLink\<close>) is not among the sources.
  The spec: an ordered pair (providerASN, customerASN); two links with the same ordered
  pair are the same entity. The field names are those of the keyword arguments at the
  call site.
\<close>

datatype cp_link = CPLink (provider_asn: int) (customer_asn: int)

text \<open>
  Modelled from the spec: class \<^verbatim>\<open>PeerLink\<close> (module \<^verbatim>\<open>peer_link\<close>) is not among the
  sources. The spec: an unordered pair of ASNs; (A, B) and (B, A) denote the same link;
  identity comes from a canonicalized, order-independent representation of the pair.
  The canonical representation here is the pair with the smaller ASN first.
\<close>

definition PeerLink :: "int \<Rightarrow> int \<Rightarrow> int \<times> int" where
  "PeerLink peer1_asn peer2_asn = (min peer1_asn peer2_asn, max peer1_asn peer2_asn)"

subsection \<open>Classification: \<^verbatim>\<open>_get_ases\<close> and its helpers\<close>

text \<open>The four sets \<^verbatim>\<open>_get_ases\<close> builds and returns.\<close>

record collected =
  cp_links :: "cp_link set"
  peer_links :: "(int \<times> int) set"
  ixps :: "int set"
  input_clique :: "int set"

text \<open>
  \<^verbatim>\<open>for asn in tokens: target.add(int(asn))\<close>: the loop shared by
  \<^verbatim>\<open>_extract_input_clique\<close> and \<^verbatim>\<open>_extract_ixp_ases\<close>.
\<close>

fun add_asns :: "string list \<Rightarrow> int set \<Rightarrow> py_error + int set" where
  "add_asns [] target = Inr target"
| "add_asns (asn # rest) target =
     (case py_int asn of
        Inl e \<Rightarrow> Inl e
      | Inr n \<Rightarrow> add_asns rest (insert n target))"

definition extract_input_clique :: "string \<Rightarrow> int set \<Rightarrow> py_error + int set" where
  "extract_input_clique line clique =
     add_asns (split (strip (last (split line CHR '':''))) CHR '' '') clique"

definition extract_ixp_ases :: "string \<Rightarrow> int set \<Rightarrow> py_error + int set" where
  "extract_ixp_ases line ixp_set =
     add_asns (split (strip (last (split line CHR '':''))) CHR '' '') ixp_set"

text \<open>
  \<^verbatim>\<open>provider_asn, customer_asn, _, source = line.split("|")\<close> raises \<^verbatim>\<open>ValueError\<close>
  unless the split has exactly four pieces. The keyword arguments are evaluated in the
  order written: \<^verbatim>\<open>int(customer_asn)\<close> first.
\<close>

definition extract_provider_customers :: "string \<Rightarrow> cp_link set \<Rightarrow> py_error + cp_link set" where
  "extract_provider_customers line links =
     (case split line CHR ''|'' of
        [provider, customer, _, source] \<Rightarrow>
          (case py_int customer of
             Inl e \<Rightarrow> Inl e
           | Inr c \<Rightarrow>
               (case py_int provider of
                  Inl e \<Rightarrow> Inl e
                | Inr p \<Rightarrow> Inr (insert (CPLink p c) links)))
      | _ \<Rightarrow> Inl ValueError)"

definition extract_peers :: "string \<Rightarrow> (int \<times> int) set \<Rightarrow> py_error + (int \<times> int) set" where
  "extract_peers line links =
     (case split line CHR ''|'' of
        [peer1, peer2, _, source] \<Rightarrow>
          (case py_int peer1 of
             Inl e \<Rightarrow> Inl e
           | Inr a \<Rightarrow>
               (case py_int peer2 of
                  Inl e \<Rightarrow> Inl e
                | Inr b \<Rightarrow> Inr (insert (PeerLink a b) links)))
      | _ \<Rightarrow> Inl ValueError)"

text \<open>The body of the loop of \<^verbatim>\<open>_get_ases\<close>, for one line.\<close>

definition classify_line :: "string \<Rightarrow> collected \<Rightarrow> py_error + collected" where
  "classify_line line st =
     (if startswith line ''# input clique'' then
        (case extract_input_clique line (input_clique st) of
           Inl e \<Rightarrow> Inl e
         | Inr s \<Rightarrow> Inr (st\<lparr>input_clique := s\<rparr>))
      else if startswith line ''# IXP ASes'' then
        (case extract_ixp_ases line (ixps st) of
           Inl e \<Rightarrow> Inl e
         | Inr s \<Rightarrow> Inr (st\<lparr>ixps := s\<rparr>))
      else if \<not> startswith line ''#'' then
        (if str_contains ''-1'' line then
           (case extract_provider_customers line (cp_links st) of
              Inl e \<Rightarrow> Inl e
            | Inr s \<Rightarrow> Inr (st\<lparr>cp_links := s\<rparr>))
         else
           (case extract_peers line (peer_links st) of
              Inl e \<Rightarrow> Inl e
            | Inr s \<Rightarrow> Inr (st\<lparr>peer_links := s\<rparr>)))
      else Inr st)"

fun get_ases_loop :: "string list \<Rightarrow> collected \<Rightarrow> py_error + collected" where
  "get_ases_loop [] st = Inr st"
| "get_ases_loop (line # lines) st =
     (case classify_line line st of
        Inl e \<Rightarrow> Inl e
      | Inr st' \<Rightarrow> get_ases_loop lines st')"

definition get_ases :: "string list \<Rightarrow> py_error + collected" where
  "get_ases lines =
     get_ases_loop lines \<lparr>cp_links = {}, peer_links = {}, ixps = {}, input_clique = {}\<rparr>"

subsection \<open>The collector, the remote side and the file system\<close>

text \<open>
  \<^verbatim>\<open>self.dl_time\<close>, the vintage, is a date; only its year, month and day are used.
  \<^verbatim>\<open>%Y\<close> is rendered with four digits (years 1000 to 9999), \<^verbatim>\<open>%m\<close> and
  \<^verbatim>\<open>%d\<close> with two.
\<close>

record dl_time =
  year :: nat
  month :: nat
  day :: nat

definition digit_char :: "nat \<Rightarrow> char" where
  "digit_char n = ''0123456789'' ! (n mod 10)"

definition two_digits :: "nat \<Rightarrow> string" where
  "two_digits n = [digit_char (n div 10), digit_char n]"

definition four_digits :: "nat \<Rightarrow> string" where
  "four_digits n = two_digits (n div 100) @ two_digits n"

text \<open>\<^verbatim>\<open>dl_time.strftime("%Y%m01")\<close> and \<^verbatim>\<open>dl_time.strftime("%Y.%m.%d.txt")\<close>\<close>

definition strftime_Ym01 :: "dl_time \<Rightarrow> string" where
  "strftime_Ym01 t = four_digits (year t) @ two_digits (month t) @ ''01''"

definition strftime_Ymd_txt :: "dl_time \<Rightarrow> string" where
  "strftime_Ymd_txt t =
     four_digits (year t) @ ''.'' @ two_digits (month t) @ ''.'' @ two_digits (day t) @ ''.txt''"

text \<open>
  The fields of \<^verbatim>\<open>CaidaCollector\<close> that the file functions read: \<^verbatim>\<open>cache_dir\<close>,
  \<^verbatim>\<open>_dir\<close> (the working directory the base class provides) and \<^verbatim>\<open>dl_time\<close>.
\<close>

record collector =
  cache_dir :: string
  dir :: string
  dl_time :: dl_time

text \<open>
  What lies outside the module, as parameters: the directory listing that
  \<^verbatim>\<open>helper_funcs.get_hrefs\<close> returns, the transfer of \<^verbatim>\<open>file_funcs.download_file\<close>
  (for a URL either the payload, or the exception together with what the failed transfer
  left at the destination, if anything), and \<^verbatim>\<open>bz2.open(path).readlines()\<close> followed by
  \<^verbatim>\<open>decode()\<close> of every line (for a payload either the text lines, each with its line
  end, or the exception).
\<close>

record remote =
  get_hrefs :: "py_error + string list"
  download :: "string \<Rightarrow> (py_error \<times> string option) + string"
  bz2_readlines :: "string \<Rightarrow> py_error + string list"

text \<open>
  The state the module acts on: the files (path to content) and, to observe the remote
  accesses, the number of listings requested and of downloads started.
\<close>

record world =
  files :: "string \<rightharpoonup> string"
  listings :: nat
  downloads :: nat

definition cache_path :: "collector \<Rightarrow> string" where
  "cache_path c = cache_dir c @ ''/'' @ strftime_Ymd_txt (dl_time c)"

definition prepend :: string where
  "prepend = ''http://data.caida.org/datasets/as-relationships/serial-2/''"

text \<open>
  \<^verbatim>\<open>_get_url\<close>: the list comprehension keeps, in the order of the listing, the entries
  that hold the token; \<^verbatim>\<open>[0]\<close> takes the first and raises \<^verbatim>\<open>IndexError\<close> on the
  empty list.
\<close>

definition get_url :: "collector \<Rightarrow> remote \<Rightarrow> world \<Rightarrow> (py_error + string) \<times> world" where
  "get_url c env w =
     (let w1 = w\<lparr>listings := Suc (listings w)\<rparr> in
      case get_hrefs env of
        Inl e \<Rightarrow> (Inl e, w1)
      | Inr hrefs \<Rightarrow>
          (case [prepend @ x. x \<leftarrow> hrefs, str_contains (strftime_Ym01 (dl_time c)) x] of
             [] \<Rightarrow> (Inl IndexError, w1)
           | url # _ \<Rightarrow> (Inr url, w1)))"

definition download_file :: "remote \<Rightarrow> string \<Rightarrow> string \<Rightarrow> world \<Rightarrow> (py_error + unit) \<times> world" where
  "download_file env url path w =
     (let w1 = w\<lparr>downloads := Suc (downloads w)\<rparr> in
      case download env url of
        Inr payload \<Rightarrow> (Inr (), w1\<lparr>files := (files w1)(path \<mapsto> payload)\<rparr>)
      | Inl (e, None) \<Rightarrow> (Inl e, w1)
      | Inl (e, Some part) \<Rightarrow> (Inl e, w1\<lparr>files := (files w1)(path \<mapsto> part)\<rparr>))"

text \<open>
  Modelled from the spec: the context manager \<^verbatim>\<open>file_funcs.temp_path\<close> (package
  \<^verbatim>\<open>lib_utils\<close>) is not among the sources. The spec: the temporary download file is a
  scoped resource, acquired immediately before the transfer and removed on every exit
  path (success, decompression error, download error) before control returns to the
  caller. The \<^verbatim>\<open>with\<close> statement runs the exit of the manager when the body returns
  and when it raises.
\<close>

definition with_temp_path ::
  "string \<Rightarrow> (string \<Rightarrow> world \<Rightarrow> (py_error + 'a) \<times> world) \<Rightarrow> world \<Rightarrow> (py_error + 'a) \<times> world" where
  "with_temp_path path_str body w =
     (case body path_str w of
        (result, w') \<Rightarrow> (result, w'\<lparr>files := (files w')(path_str := None)\<rparr>))"

text \<open>
  \<^verbatim>\<open>_write_cache_file\<close>. The body of the \<^verbatim>\<open>with\<close> block downloads to the temporary
  path and reads the lines back through \<^verbatim>\<open>bz2\<close>; the cache file is written after the
  block. Opening the cache file for writing is taken to succeed.
\<close>

definition write_cache_file ::
  "collector \<Rightarrow> remote \<Rightarrow> string \<Rightarrow> world \<Rightarrow> (py_error + unit) \<times> world" where
  "write_cache_file c env cache_file w =
     (case get_url c env w of
        (Inl e, w1) \<Rightarrow> (Inl e, w1)
      | (Inr url, w1) \<Rightarrow>
          (case with_temp_path (dir c @ ''/download.bz2'')
                  (\<lambda>path w2.
                     case download_file env url path w2 of
                       (Inl e, w3) \<Rightarrow> (Inl e, w3)
                     | (Inr _, w3) \<Rightarrow>
                         (case files w3 path of
                            None \<Rightarrow> (Inl FileNotFoundError, w3)
                          | Some payload \<Rightarrow> (bz2_readlines env payload, w3)))
                  w1 of
             (Inl e, w4) \<Rightarrow> (Inl e, w4)
           | (Inr data, w4) \<Rightarrow>
               (Inr (), w4\<lparr>files := (files w4)(cache_file \<mapsto> concat data)\<rparr>)))"

text \<open>
  Reading a text file: a carriage return, alone or followed by a line feed, is read as
  a line feed (universal newlines); \<^verbatim>\<open>readlines\<close> cuts after every line feed and
  keeps it.
\<close>

fun translate_newlines :: "string \<Rightarrow> string" where
  "translate_newlines [] = []"
| "translate_newlines [c] = (if c = CHR 0x0D then [CHR 0x0A] else [c])"
| "translate_newlines (c # d # cs) =
     (if c = CHR 0x0D \<and> d = CHR 0x0A then CHR 0x0A # translate_newlines cs
      else if c = CHR 0x0D then CHR 0x0A # translate_newlines (d # cs)
      else c # translate_newlines (d # cs))"

fun lines_from :: "string \<Rightarrow> string \<Rightarrow> string list" where
  "lines_from cur [] = (if cur = [] then [] else [cur])"
| "lines_from cur (c # cs) =
     (if c = CHR 0x0A then (cur @ [c]) # lines_from [] cs else lines_from (cur @ [c]) cs)"

definition readlines :: "string \<Rightarrow> string list" where
  "readlines content = lines_from [] (translate_newlines content)"

text \<open>
  \<^verbatim>\<open>_read_file\<close>: \<^verbatim>\<open>cache\<close> is a \<^verbatim>\<open>bool\<close>, so \<^verbatim>\<open>cache is False\<close> is its
  negation.
\<close>

definition read_file :: "collector \<Rightarrow> remote \<Rightarrow> bool \<Rightarrow> world \<Rightarrow> (py_error + string list) \<times> world" where
  "read_file c env cache w =
     (case (if cache_path c \<notin> dom (files w) \<or> \<not> cache
            then write_cache_file c env (cache_path c) w
            else (Inr (), w)) of
        (Inl e, w1) \<Rightarrow> (Inl e, w1)
      | (Inr _, w1) \<Rightarrow>
          (case files w1 (cache_path c) of
             None \<Rightarrow> (Inl FileNotFoundError, w1)
           | Some content \<Rightarrow> (Inr (map strip (readlines content)), w1)))"

text \<open>
  \<^verbatim>\<open>run\<close>, up to the classified sets; building the graph and writing the TSV come
  after and belong to collaborators outside the module.
\<close>

definition run :: "collector \<Rightarrow> remote \<Rightarrow> bool \<Rightarrow> world \<Rightarrow> (py_error + collected) \<times> world" where
  "run c env cache w =
     (case read_file c env cache w of
        (Inl e, w1) \<Rightarrow> (Inl e, w1)
      | (Inr file_lines, w1) \<Rightarrow> (get_ases file_lines, w1))"

subsection \<open>An example collector, remote sides and world\<close>

text \<open>
  The collector of May 2021; a remote side whose listing holds one entry of that month, one
  whose listing holds two, and one whose transfer breaks and leaves a partial file.
\<close>

definition example_collector :: collector where
  "example_collector =
     \<lparr>cache_dir = ''/tmp/caida_collector_cache'', dir = ''/tmp/caida'',
      dl_time = \<lparr>year = 2021, month = 5, day = 1\<rparr>\<rparr>"

definition example_download :: "string \<Rightarrow> (py_error \<times> string option) + string" where
  "example_download url = Inr ''compressed''"

definition example_bz2_readlines :: "string \<Rightarrow> py_error + string list" where
  "example_bz2_readlines payload =
     Inr [''# input clique: 1 2'' @ [CHR 0x0A], ''1|3|-1|src'' @ [CHR 0x0A]]"

definition example_remote :: remote where
  "example_remote =
     \<lparr>get_hrefs = Inr [''20210401.as-rel2.txt.bz2'', ''20210501.as-rel2.txt.bz2''],
      download = example_download, bz2_readlines = example_bz2_readlines\<rparr>"

definition ambiguous_remote :: remote where
  "ambiguous_remote =
     \<lparr>get_hrefs = Inr [''20210501.as-rel2.txt.bz2'', ''20210501.ppdc-ases.txt.bz2''],
      download = example_download, bz2_readlines = example_bz2_readlines\<rparr>"

definition broken_download :: "string \<Rightarrow> (py_error \<times> string option) + string" where
  "broken_download url = Inl (ExternalError ''connection reset'', Some ''compr'')"

definition broken_remote :: remote where
  "broken_remote =
     \<lparr>get_hrefs = Inr [''20210501.as-rel2.txt.bz2''],
      download = broken_download, bz2_readlines = example_bz2_readlines\<rparr>"

definition empty_world :: world where
  "empty_world = \<lparr>files = Map.empty, listings = 0, downloads = 0\<rparr>"

section \<open>Properties of the string operations and of the classifier\<close>

lemma split_from_not_Nil: "split_from sep cur s \<noteq> []"
  by (induction s arbitrary: cur) auto

lemma split_not_Nil: "split s sep \<noteq> []"
  by (simp add: split_def split_from_not_Nil)

lemma split_from_no_sep: "sep \<notin> set s \<Longrightarrow> split_from sep cur s = [cur @ s]"
  by (induction s arbitrary: cur) auto

lemma split_no_sep: "sep \<notin> set s \<Longrightarrow> split s sep = [s]"
  by (simp add: split_def split_from_no_sep)

lemma split_from_append: "split_from sep cur (a @ sep # b) = split_from sep cur a @ split_from sep [] b"
  by (induction a arbitrary: cur) auto

lemma split_append: "split (a @ sep # b) sep = split a sep @ split b sep"
  by (simp add: split_def split_from_append)

lemma split_field: "sep \<notin> set a \<Longrightarrow> split (a @ sep # b) sep = a # split b sep"
  by (simp add: split_append split_no_sep)

lemma last_split: "sep \<notin> set b \<Longrightarrow> last (split (a @ sep # b) sep) = b"
  by (simp add: split_append split_no_sep split_not_Nil)

lemma startswith_iff: "startswith s p \<longleftrightarrow> (\<exists>t. s = p @ t)"
  by (induction s p rule: startswith.induct) auto

lemma str_contains_append: "str_contains sub (a @ sub @ b)"
proof (induction a)
  case Nil
  have "startswith (sub @ b) sub" by (auto simp: startswith_iff)
  then show ?case by (cases "sub @ b") auto
next
  case (Cons c a)
  then show ?case by simp
qed

lemma py_int_error: "py_int s = Inl e \<Longrightarrow> e = ValueError"
  by (auto simp: py_int_def Let_def split: list.splits if_splits option.splits)

lemma add_asns_error: "add_asns ts target = Inl e \<Longrightarrow> e = ValueError"
  by (induction ts arbitrary: target) (auto split: sum.splits dest: py_int_error)

lemma add_asns_bad_token:
  "t \<in> set ts \<Longrightarrow> py_int t = Inl e \<Longrightarrow> add_asns ts target = Inl ValueError"
proof (induction ts arbitrary: target)
  case Nil
  then show ?case by simp
next
  case (Cons x xs)
  show ?case
  proof (cases "py_int x")
    case (Inl e')
    then show ?thesis using py_int_error [OF Inl] by simp
  next
    case (Inr n)
    with Cons.prems have "t \<in> set xs" by auto
    then have "add_asns xs (insert n target) = Inl ValueError"
      using Cons.IH Cons.prems(2) by blast
    with Inr show ?thesis by simp
  qed
qed

lemma extract_provider_customers_error:
  "extract_provider_customers line links = Inl e \<Longrightarrow> e = ValueError"
  by (auto simp: extract_provider_customers_def split: list.splits sum.splits dest: py_int_error)

lemma extract_peers_error: "extract_peers line links = Inl e \<Longrightarrow> e = ValueError"
  by (auto simp: extract_peers_def split: list.splits sum.splits dest: py_int_error)

lemma classify_line_error: "classify_line line st = Inl e \<Longrightarrow> e = ValueError"
  unfolding classify_line_def extract_input_clique_def extract_ixp_ases_def
  by (auto split: if_splits sum.splits
      dest: add_asns_error extract_provider_customers_error extract_peers_error)

lemma get_ases_loop_error: "get_ases_loop lines st = Inl e \<Longrightarrow> e = ValueError"
  by (induction lines arbitrary: st) (auto split: sum.splits dest: classify_line_error)

lemma get_ases_loop_bad_line:
  assumes "line \<in> set lines" and "\<And>st. \<exists>e. classify_line line st = Inl e"
  shows "get_ases_loop lines st = Inl ValueError"
  using assms(1)
proof (induction lines arbitrary: st)
  case Nil
  then show ?case by simp
next
  case (Cons x xs)
  show ?case
  proof (cases "classify_line x st")
    case (Inl e)
    then show ?thesis using classify_line_error [OF Inl] by simp
  next
    case (Inr st')
    then have "x \<noteq> line" using assms(2) [of st] by auto
    with Cons.prems have "line \<in> set xs" by auto
    then have "get_ases_loop xs st' = Inl ValueError" by (rule Cons.IH)
    with Inr show ?thesis by simp
  qed
qed

lemma startswith_trans: "startswith s (p @ q) \<Longrightarrow> startswith s p"
  by (auto simp: startswith_iff)

lemma not_comment_not_marker:
  assumes "\<not> startswith line ''#''"
  shows "\<not> startswith line ''# input clique''" and "\<not> startswith line ''# IXP ASes''"
  using assms startswith_trans [of line "''#''" "'' input clique''"]
    startswith_trans [of line "''#''" "'' IXP ASes''"] by auto

lemma classify_data_line:
  assumes "\<not> startswith line ''#''"
  shows "classify_line line st =
     (if str_contains ''-1'' line then
        (case extract_provider_customers line (cp_links st) of
           Inl e \<Rightarrow> Inl e | Inr s \<Rightarrow> Inr (st\<lparr>cp_links := s\<rparr>))
      else
        (case extract_peers line (peer_links st) of
           Inl e \<Rightarrow> Inl e | Inr s \<Rightarrow> Inr (st\<lparr>peer_links := s\<rparr>)))"
  using assms not_comment_not_marker [OF assms] unfolding classify_line_def by simp

lemma unpack4_length:
  "length fs \<noteq> 4 \<Longrightarrow> (case fs of [a, b, c, d] \<Rightarrow> f a b c d | _ \<Rightarrow> Inl ValueError) = Inl ValueError"
  by (auto split: list.splits)

lemma classify_malformed_line:
  assumes "\<not> startswith line ''#''"
    and "length (split line CHR ''|'') \<noteq> 4
         \<or> (\<exists>e. py_int (split line CHR ''|'' ! 0) = Inl e)
         \<or> (\<exists>e. py_int (split line CHR ''|'' ! 1) = Inl e)"
  shows "\<exists>e. classify_line line st = Inl e"
proof (cases "length (split line CHR ''|'') = 4")
  case False
  then show ?thesis
    by (simp add: classify_data_line [OF assms(1)] extract_provider_customers_def
        extract_peers_def unpack4_length)
next
  case True
  then obtain f1 f2 f3 f4 where fs: "split line CHR ''|'' = [f1, f2, f3, f4]"
    by (auto simp: length_Suc_conv numeral_eq_Suc)
  with assms(2) have "(\<exists>e. py_int f1 = Inl e) \<or> (\<exists>e. py_int f2 = Inl e)" by simp
  then show ?thesis
    by (auto simp: classify_data_line [OF assms(1)] extract_provider_customers_def
        extract_peers_def fs split: sum.splits)
qed

lemma dropWhile_snoc_keep: "\<not> P c \<Longrightarrow> \<exists>ys. dropWhile P (xs @ [c]) = ys @ [c]"
  by (induction xs) auto

lemma strip_keeps_head:
  assumes "\<not> P c"
  shows "\<exists>t. rev (dropWhile P (rev (dropWhile P (c # cs)))) = c # t"
proof -
  obtain ys where "dropWhile P (rev cs @ [c]) = ys @ [c]"
    using dropWhile_snoc_keep [of P c "rev cs"] assms by blast
  then show ?thesis using assms by simp
qed

lemma py_int_head:
  assumes "\<not> int_space c" and "\<not> isdigit c" and "c \<noteq> CHR ''-''" and "c \<noteq> CHR ''+''"
  shows "py_int (c # cs) = Inl ValueError"
proof -
  obtain t where "int_strip (c # cs) = c # t"
    unfolding int_strip_def using strip_keeps_head [of int_space c cs] assms(1) by blast
  then show ?thesis using assms by (simp add: py_int_def)
qed

lemma py_int_not_comment:
  assumes "py_int s = Inr n"
  shows "\<not> startswith (s @ t) ''#''"
proof
  assume "startswith (s @ t) ''#''"
  then obtain u where u: "s @ t = CHR ''#'' # u" by (auto simp: startswith_iff)
  have "s \<noteq> []" using assms by (auto simp: py_int_def int_strip_def)
  then obtain cs where s: "s = CHR ''#'' # cs" using u by (cases s) auto
  have "py_int s = Inl ValueError"
    unfolding s by (rule py_int_head) (simp_all add: int_space_def isdigit_def)
  with assms show False by simp
qed

lemma classify_cp_line:
  assumes "CHR ''|'' \<notin> set f1" "CHR ''|'' \<notin> set f2" "CHR ''|'' \<notin> set src"
    and "py_int f1 = Inr a" "py_int f2 = Inr b"
  shows "classify_line (f1 @ ''|'' @ f2 @ ''|-1|'' @ src) st
         = Inr (st\<lparr>cp_links := insert (CPLink a b) (cp_links st)\<rparr>)"
proof -
  define line where "line = f1 @ ''|'' @ f2 @ ''|-1|'' @ src"
  have data: "\<not> startswith line ''#''"
    unfolding line_def using py_int_not_comment [OF assms(4)] .
  have "line = (f1 @ ''|'' @ f2 @ ''|'') @ ''-1'' @ (''|'' @ src)" by (simp add: line_def)
  then have sentinel: "str_contains ''-1'' line" using str_contains_append by metis
  have "split (''-1'' @ CHR ''|'' # src) CHR ''|'' = [''-1'', src]"
    using split_field [of "CHR ''|''" "''-1''" src] split_no_sep [of "CHR ''|''" src] assms(3)
    by simp
  then have fields: "split line CHR ''|'' = [f1, f2, ''-1'', src]"
    unfolding line_def using assms(1,2) by (simp add: split_field)
  have "classify_line line st = Inr (st\<lparr>cp_links := insert (CPLink a b) (cp_links st)\<rparr>)"
    by (simp add: classify_data_line [OF data] sentinel extract_provider_customers_def
        fields assms(4,5))
  then show ?thesis unfolding line_def .
qed

lemma classify_peer_line:
  assumes "CHR ''|'' \<notin> set f1" "CHR ''|'' \<notin> set f2" "CHR ''|'' \<notin> set rel" "CHR ''|'' \<notin> set src"
    and "py_int f1 = Inr a" "py_int f2 = Inr b"
    and "\<not> str_contains ''-1'' (f1 @ ''|'' @ f2 @ ''|'' @ rel @ ''|'' @ src)"
  shows "classify_line (f1 @ ''|'' @ f2 @ ''|'' @ rel @ ''|'' @ src) st
         = Inr (st\<lparr>peer_links := insert (PeerLink a b) (peer_links st)\<rparr>)"
proof -
  define line where "line = f1 @ ''|'' @ f2 @ ''|'' @ rel @ ''|'' @ src"
  have data: "\<not> startswith line ''#''"
    unfolding line_def using py_int_not_comment [OF assms(5)] .
  have peer: "\<not> str_contains ''-1'' line" unfolding line_def using assms(7) .
  have fields: "split line CHR ''|'' = [f1, f2, rel, src]"
    unfolding line_def using assms(1-4) by (simp add: split_field split_no_sep)
  have "classify_line line st = Inr (st\<lparr>peer_links := insert (PeerLink a b) (peer_links st)\<rparr>)"
    by (simp add: classify_data_line [OF data] peer extract_peers_def fields assms(5,6))
  then show ?thesis unfolding line_def .
qed

lemma classify_line_mono:
  assumes "classify_line line st = Inr st'"
  shows "cp_links st \<subseteq> cp_links st'" and "peer_links st \<subseteq> peer_links st'"
  using assms unfolding classify_line_def extract_provider_customers_def extract_peers_def
  by (auto split: if_splits sum.splits list.splits)

lemma get_ases_loop_mono:
  assumes "get_ases_loop lines st = Inr st'"
  shows "cp_links st \<subseteq> cp_links st' \<and> peer_links st \<subseteq> peer_links st'"
  using assms
proof (induction lines arbitrary: st)
  case Nil
  then show ?case by simp
next
  case (Cons x xs)
  then obtain st1 where x: "classify_line x st = Inr st1" and xs: "get_ases_loop xs st1 = Inr st'"
    by (auto split: sum.splits)
  show ?case using classify_line_mono [OF x] Cons.IH [OF xs] by blast
qed

lemma get_ases_loop_peer_member:
  assumes "line \<in> set lines"
    and "\<And>st. classify_line line st = Inr (st\<lparr>peer_links := insert p (peer_links st)\<rparr>)"
    and "get_ases_loop lines st = Inr r"
  shows "p \<in> peer_links r"
  using assms(1,3)
proof (induction lines arbitrary: st)
  case Nil
  then show ?case by simp
next
  case (Cons x xs)
  then obtain st1 where x: "classify_line x st = Inr st1" and xs: "get_ases_loop xs st1 = Inr r"
    by (auto split: sum.splits)
  show ?case
  proof (cases "x = line")
    case True
    then have "p \<in> peer_links st1" using x assms(2) [of st] by auto
    then show ?thesis using get_ases_loop_mono [OF xs] by blast
  next
    case False
    then have "line \<in> set xs" using Cons.prems(1) by auto
    then show ?thesis using Cons.IH xs by blast
  qed
qed

lemma get_ases_loop_cp_member:
  assumes "line \<in> set lines"
    and "\<And>st. classify_line line st = Inr (st\<lparr>cp_links := insert p (cp_links st)\<rparr>)"
    and "get_ases_loop lines st = Inr r"
  shows "p \<in> cp_links r"
  using assms(1,3)
proof (induction lines arbitrary: st)
  case Nil
  then show ?case by simp
next
  case (Cons x xs)
  then obtain st1 where x: "classify_line x st = Inr st1" and xs: "get_ases_loop xs st1 = Inr r"
    by (auto split: sum.splits)
  show ?case
  proof (cases "x = line")
    case True
    then have "p \<in> cp_links st1" using x assms(2) [of st] by auto
    then show ?thesis using get_ases_loop_mono [OF xs] by blast
  next
    case False
    then have "line \<in> set xs" using Cons.prems(1) by auto
    then show ?thesis using Cons.IH xs by blast
  qed
qed

lemma PeerLink_commute: "PeerLink a b = PeerLink b a"
  by (simp add: PeerLink_def min.commute max.commute)

lemma dropWhile_keep_head: "xs \<noteq> [] \<Longrightarrow> \<not> P (hd xs) \<Longrightarrow> dropWhile P xs = xs"
  by (cases xs) auto

lemma strip_core:
  assumes "\<forall>c\<in>set ws1. P c" and "\<forall>c\<in>set ws2. P c"
    and "core \<noteq> []" and "\<not> P (hd core)" and "\<not> P (last core)"
  shows "rev (dropWhile P (rev (dropWhile P (ws1 @ core @ ws2)))) = core"
proof -
  have "dropWhile P (ws1 @ core @ ws2) = dropWhile P (core @ ws2)"
    by (rule dropWhile_append2) (use assms(1) in auto)
  also have "\<dots> = core @ ws2"
    using assms(3,4) by (intro dropWhile_keep_head) auto
  finally have front: "dropWhile P (ws1 @ core @ ws2) = core @ ws2" .
  have "dropWhile P (rev ws2 @ rev core) = dropWhile P (rev core)"
    by (rule dropWhile_append2) (use assms(2) in auto)
  also have "\<dots> = rev core"
    using assms(3,5) by (intro dropWhile_keep_head) (auto simp: hd_rev)
  finally show ?thesis by (simp add: front)
qed

lemmas strip_padded = strip_core [of _ isspace, folded strip_def]

lemma isspace_not_colon: "isspace c \<Longrightarrow> c \<noteq> CHR '':''"
  by (auto simp: isspace_def)

lemma py_int_100_200_300:
  "py_int ''100'' = Inr 100" "py_int ''200'' = Inr 200" "py_int ''300'' = Inr 300"
  by (simp_all add: py_int_def int_strip_def int_space_def int_max_str_digits_def isdigit_def
        digit_val_def)

subsection \<open>Tokens and separators of a marker line\<close>

lemma isspace_not_digit: "isspace c \<Longrightarrow> \<not> isdigit c"
  by (auto simp: isspace_def isdigit_def)

lemma isspace_not_sign:
  "isspace c \<Longrightarrow> c \<noteq> CHR ''-'' \<and> c \<noteq> CHR ''+'' \<and> c \<noteq> CHR ''_''"
  by (auto simp: isspace_def)

lemma int_space_isspace: "int_space c \<Longrightarrow> isspace c"
  by (auto simp: int_space_def isspace_def)

lemma isdigit_not_int_space: "isdigit c \<Longrightarrow> \<not> int_space c"
  by (auto simp: int_space_def isdigit_def)

lemma isdigit_not_sign: "isdigit c \<Longrightarrow> c \<noteq> CHR ''-'' \<and> c \<noteq> CHR ''+''"
  by (auto simp: isdigit_def)

lemma py_int_padded_head:
  assumes "\<forall>c\<in>set p. int_space c"
    and "\<not> int_space x" and "\<not> isdigit x" and "x \<noteq> CHR ''-''" and "x \<noteq> CHR ''+''"
  shows "py_int (p @ x # rest) = Inl ValueError"
proof -
  have "dropWhile int_space (p @ x # rest) = dropWhile int_space (x # rest)"
    by (rule dropWhile_append2) (use assms(1) in auto)
  then have "int_strip (p @ x # rest) = int_strip (x # rest)"
    by (simp add: int_strip_def)
  then have "py_int (p @ x # rest) = py_int (x # rest)" by (simp add: py_int_def)
  then show ?thesis using py_int_head [OF assms(2-5)] by simp
qed

lemma py_int_whitespace_only:
  assumes "\<forall>c\<in>set s. isspace c"
  shows "py_int s = Inl ValueError"
proof (cases "dropWhile int_space s")
  case Nil
  have "int_strip s = []" unfolding int_strip_def Nil by simp
  then show ?thesis by (simp add: py_int_def)
next
  case (Cons x rest)
  have s: "s = takeWhile int_space s @ x # rest"
    using takeWhile_dropWhile_id [of int_space s] Cons by simp
  have x: "\<not> int_space x" using Cons hd_dropWhile [of int_space s] by auto
  have "x \<in> set s" using s by (metis in_set_conv_decomp)
  then have sp: "isspace x" using assms by blast
  have "py_int (takeWhile int_space s @ x # rest) = Inl ValueError"
    using x isspace_not_digit [OF sp] isspace_not_sign [OF sp]
    by (intro py_int_padded_head) (auto dest: set_takeWhileD)
  then show ?thesis using s by simp
qed

lemma py_digits_stop:
  "\<forall>x\<in>set d. isdigit x \<Longrightarrow> \<not> isdigit c \<Longrightarrow> c \<noteq> CHR ''_''
   \<Longrightarrow> py_digits prev acc (d @ c # rest) = None"
  by (induction d arbitrary: prev acc) auto

lemma py_int_digits_then_junk:
  assumes "d \<noteq> []" and "\<forall>x\<in>set d. isdigit x"
    and "w \<noteq> []" and "\<not> isdigit (hd w)" and "hd w \<noteq> CHR ''_''"
    and "\<exists>x\<in>set w. \<not> int_space x"
  shows "py_int (d @ w) = Inl ValueError"
proof -
  obtain d0 d' where d: "d = d0 # d'" using assms(1) by (cases d) auto
  have d0: "isdigit d0" using assms(2) d by simp
  have left: "dropWhile int_space (d @ w) = d @ w"
    using isdigit_not_int_space [OF d0] by (simp add: d)
  obtain x where x: "x \<in> set (rev w)" "\<not> int_space x" using assms(6) by auto
  have right: "dropWhile int_space (rev w @ rev d) = dropWhile int_space (rev w) @ rev d"
    using x by (rule dropWhile_append1)
  define w' where "w' = rev (dropWhile int_space (rev w))"
  have strip: "int_strip (d @ w) = d @ w'"
    by (simp add: int_strip_def left right w'_def)
  have "w = rev (takeWhile int_space (rev w) @ dropWhile int_space (rev w))"
    by (simp only: takeWhile_dropWhile_id rev_rev_ident)
  also have "\<dots> = rev (dropWhile int_space (rev w)) @ rev (takeWhile int_space (rev w))"
    by (rule rev_append)
  finally have prefix: "w = w' @ rev (takeWhile int_space (rev w))"
    unfolding w'_def .
  have "dropWhile int_space (rev w) \<noteq> []"
    using x by (auto simp: dropWhile_eq_Nil_conv)
  then have "w' \<noteq> []" by (simp add: w'_def)
  then obtain c w'' where w': "w' = c # w''" by (cases w') auto
  have c: "c = hd w" using prefix w' by (metis append_Cons list.sel(1))
  have stop: "py_digits False 0 (d @ c # w'') = None"
    using assms(2,4,5) c by (intro py_digits_stop) auto
  have shape: "int_strip (d @ w) = d0 # (d' @ c # w'')" using strip w' d by simp
  have none: "py_digits False 0 (d0 # (d' @ c # w'')) = None" using stop d by simp
  show ?thesis
    unfolding py_int_def shape using isdigit_not_sign [OF d0]
    by (simp add: Let_def none del: py_digits.simps)
qed

lemma py_int_left_pad:
  assumes "\<forall>c\<in>set p. int_space c"
  shows "py_int (p @ s) = py_int s"
proof -
  have "dropWhile int_space (p @ s) = dropWhile int_space s"
    by (rule dropWhile_append2) (use assms in auto)
  then have "int_strip (p @ s) = int_strip s" by (simp add: int_strip_def)
  then show ?thesis by (simp add: py_int_def)
qed

lemma py_int_padded:
  assumes "\<forall>c\<in>set p. int_space c" and "\<forall>c\<in>set q. int_space c"
    and "core \<noteq> []" and "\<not> int_space (hd core)" and "\<not> int_space (last core)"
  shows "py_int (p @ core @ q) = py_int core"
proof -
  have "int_strip (p @ core @ q) = core"
    unfolding int_strip_def using assms by (rule strip_core)
  moreover have "int_strip ([] @ core @ []) = core"
    unfolding int_strip_def using assms(3,4,5) by (intro strip_core) simp_all
  ultimately show ?thesis by (simp add: py_int_def)
qed

lemma set_split_append:
  "set (split (a @ sep # b) sep) = set (split a sep) \<union> set (split b sep)"
  by (simp add: split_append)

lemma first_piece:
  assumes "sep \<notin> set m"
  shows "\<exists>z. m @ z \<in> set (split (m @ y) sep)"
proof (cases "sep \<in> set y")
  case True
  then obtain z y' where y: "y = z @ sep # y'" and z: "sep \<notin> set z"
    by (meson split_list_first)
  have "split ((m @ z) @ sep # y') sep = (m @ z) # split y' sep"
    by (rule split_field) (use assms z in simp)
  then have "m @ z \<in> set (split (m @ y) sep)" by (simp add: y)
  then show ?thesis by blast
next
  case False
  then have "split (m @ y) sep = [m @ y]" using assms by (intro split_no_sep) simp
  then have "m @ y \<in> set (split (m @ y) sep)" by simp
  then show ?thesis by blast
qed

lemma sep_cases:
  obtains (none) "sep \<notin> set g"
  | (one) q p where "g = q @ sep # p" "sep \<notin> set q" "sep \<notin> set p"
  | (more) q m r where "g = q @ sep # m @ sep # r" "sep \<notin> set q" "sep \<notin> set m"
proof (cases "sep \<in> set g")
  case False
  then show ?thesis by (rule none)
next
  case True
  then obtain q rest where g: "g = q @ sep # rest" and q: "sep \<notin> set q"
    by (meson split_list_first)
  show ?thesis
  proof (cases "sep \<in> set rest")
    case False
    then show ?thesis by (intro one [of q rest]) (use g q in simp_all)
  next
    case True
    then obtain m r where rest: "rest = m @ sep # r" and m: "sep \<notin> set m"
      by (meson split_list_first)
    show ?thesis by (rule more [of q m r]) (use g q m rest in simp_all)
  qed
qed

lemma count_one_sep:
  assumes "sep \<notin> set q" and "sep \<notin> set p"
  shows "length (filter (\<lambda>c. c = sep) (q @ sep # p)) = 1"
proof -
  have "filter (\<lambda>c. c = sep) q = []" and "filter (\<lambda>c. c = sep) p = []"
    using assms by (auto simp: filter_empty_conv)
  then show ?thesis by simp
qed

lemma count_more_sep: "length (filter (\<lambda>c. c = sep) (q @ sep # m @ sep # r)) \<noteq> 1"
  by simp

lemma count_none_sep: "sep \<notin> set g \<Longrightarrow> length (filter (\<lambda>c. c = sep) g) \<noteq> 1"
proof -
  assume "sep \<notin> set g"
  then have "filter (\<lambda>c. c = sep) g = []" by (auto simp: filter_empty_conv)
  then show ?thesis by simp
qed

lemma isdigit_not_space: "isdigit c \<Longrightarrow> c \<noteq> CHR '' ''"
  by (auto simp: isdigit_def)

lemma int_space_space: "int_space CHR '' ''"
  by (simp add: int_space_def)

lemma bad_separator_token:
  assumes pre: "\<forall>c\<in>set pre. int_space c" "CHR '' '' \<notin> set pre"
    and d1: "d1 \<noteq> []" "\<forall>c\<in>set d1. isdigit c"
    and d2: "d2 \<noteq> []" "\<forall>c\<in>set d2. isdigit c"
    and g: "g \<noteq> []" "\<forall>c\<in>set g. isspace c"
    and bad: "\<not> (length (filter (\<lambda>c. c = CHR '' '') g) = 1 \<and> (\<forall>c\<in>set g. int_space c))"
  shows "\<exists>t\<in>set (split (pre @ d1 @ g @ d2 @ y) CHR '' ''). py_int t = Inl ValueError"
proof -
  have nosp1: "CHR '' '' \<notin> set d1" and nosp2: "CHR '' '' \<notin> set d2"
    using d1(2) d2(2) isdigit_not_space by blast+
  have d2_hd: "hd d2 \<in> set d2" using d2(1) by simp
  then have d2_bad: "\<not> int_space (hd d2)" using d2(2) isdigit_not_int_space by blast
  show ?thesis
  proof (cases rule: sep_cases [where sep = "CHR '' ''" and g = g])
    case none
    have "CHR '' '' \<notin> set (pre @ d1 @ g @ d2)" using pre(2) nosp1 nosp2 none by simp
    then obtain z where z: "(pre @ d1 @ g @ d2) @ z \<in> set (split ((pre @ d1 @ g @ d2) @ y) CHR '' '')"
      using first_piece by blast
    have "py_int (pre @ (d1 @ (g @ d2 @ z))) = py_int (d1 @ (g @ d2 @ z))"
      using pre(1) by (rule py_int_left_pad)
    also have "\<dots> = Inl ValueError"
    proof (rule py_int_digits_then_junk [OF d1])
      show "g @ d2 @ z \<noteq> []" using g(1) by simp
      have "isspace (hd g)" using g by simp
      then show "\<not> isdigit (hd (g @ d2 @ z))" and "hd (g @ d2 @ z) \<noteq> CHR ''_''"
        using g(1) isspace_not_digit isspace_not_sign by auto
      show "\<exists>x\<in>set (g @ d2 @ z). \<not> int_space x" using d2_hd d2_bad by auto
    qed
    finally show ?thesis using z by auto
  next
    case (one q p)
    have "length (filter (\<lambda>c. c = CHR '' '') g) = 1"
      unfolding one(1) using one(2,3) by (rule count_one_sep)
    then obtain x where x: "x \<in> set q \<or> x \<in> set p" "\<not> int_space x"
      using bad int_space_space unfolding one(1) by auto
    have whole: "set (split (pre @ d1 @ g @ d2 @ y) CHR '' '')
        = set (split (pre @ d1 @ q) CHR '' '') \<union> set (split (p @ d2 @ y) CHR '' '')"
      using set_split_append [of "pre @ d1 @ q" "CHR '' ''" "p @ d2 @ y"] by (simp add: one(1))
    show ?thesis
    proof (cases "\<exists>x\<in>set q. \<not> int_space x")
      case True
      have "split (pre @ d1 @ q) CHR '' '' = [pre @ d1 @ q]"
        using pre(2) nosp1 one(2) by (intro split_no_sep) simp
      then have tok: "pre @ d1 @ q \<in> set (split (pre @ d1 @ g @ d2 @ y) CHR '' '')"
        using whole by simp
      have "py_int (pre @ (d1 @ q)) = py_int (d1 @ q)" using pre(1) by (rule py_int_left_pad)
      also have "\<dots> = Inl ValueError"
      proof (rule py_int_digits_then_junk [OF d1])
        show "q \<noteq> []" using True by auto
        then have "hd q \<in> set g" unfolding one(1) by simp
        then have "isspace (hd q)" using g(2) by blast
        then show "\<not> isdigit (hd q)" and "hd q \<noteq> CHR ''_''"
          using isspace_not_digit isspace_not_sign by auto
        show "\<exists>x\<in>set q. \<not> int_space x" by (rule True)
      qed
      finally show ?thesis using tok by auto
    next
      case False
      then have "\<exists>x\<in>set p. \<not> int_space x" using x by blast
      then obtain a b c where p: "p = a @ c # b" and c: "\<not> int_space c"
        and a: "\<forall>x\<in>set a. int_space x"
        using split_list_first_prop [of p "\<lambda>x. \<not> int_space x"] by auto
      have "CHR '' '' \<notin> set (p @ d2)" using one(3) nosp2 by simp
      then obtain z where "(p @ d2) @ z \<in> set (split ((p @ d2) @ y) CHR '' '')"
        using first_piece by blast
      then have tok: "a @ c # (b @ d2 @ z) \<in> set (split (pre @ d1 @ g @ d2 @ y) CHR '' '')"
        using whole by (simp add: p)
      have "c \<in> set g" unfolding one(1) p by simp
      then have sp: "isspace c" using g(2) by blast
      have "py_int (a @ c # (b @ d2 @ z)) = Inl ValueError"
        using a c isspace_not_digit [OF sp] isspace_not_sign [OF sp]
        by (intro py_int_padded_head) auto
      then show ?thesis using tok by blast
    qed
  next
    case (more q m r)
    have "set (split (pre @ d1 @ g @ d2 @ y) CHR '' '')
        = set (split (pre @ d1 @ q) CHR '' '') \<union> set (split (m @ CHR '' '' # (r @ d2 @ y)) CHR '' '')"
      using set_split_append [of "pre @ d1 @ q" "CHR '' ''" "m @ CHR '' '' # (r @ d2 @ y)"]
      by (simp add: more(1))
    moreover have "set (split (m @ CHR '' '' # (r @ d2 @ y)) CHR '' '')
        = set (split m CHR '' '') \<union> set (split (r @ d2 @ y) CHR '' '')"
      by (rule set_split_append)
    moreover have "split m CHR '' '' = [m]" using more(3) by (rule split_no_sep)
    ultimately have tok: "m \<in> set (split (pre @ d1 @ g @ d2 @ y) CHR '' '')" by simp
    have "\<forall>c\<in>set m. isspace c" using g(2) unfolding more(1) by simp
    then have "py_int m = Inl ValueError" by (rule py_int_whitespace_only)
    then show ?thesis using tok by blast
  qed
qed

lemma count_one_decompose:
  assumes "length (filter (\<lambda>c. c = sep) g) = 1"
  obtains q p where "g = q @ sep # p" "sep \<notin> set q" "sep \<notin> set p"
proof (cases rule: sep_cases [where sep = sep and g = g])
  case none
  then have False using assms count_none_sep [of sep g] by simp
  then show ?thesis ..
next
  case (one q p)
  then show ?thesis by (rule that)
next
  case (more q m r)
  then show ?thesis using assms count_more_sep [of sep q m r] by simp
qed

lemma clique_tokens:
  assumes g1: "g1 \<noteq> []" "\<forall>c\<in>set g1. isspace c"
    and g2: "g2 \<noteq> []" "\<forall>c\<in>set g2. isspace c"
  shows "add_asns (split (''100'' @ g1 @ ''200'' @ g2 @ ''300'') CHR '' '') {}
         = (if (length (filter (\<lambda>c. c = CHR '' '') g1) = 1 \<and> (\<forall>c\<in>set g1. int_space c))
               \<and> (length (filter (\<lambda>c. c = CHR '' '') g2) = 1 \<and> (\<forall>c\<in>set g2. int_space c))
            then Inr {100, 200, 300} else Inl ValueError)"
proof -
  let ?T = "''100'' @ g1 @ ''200'' @ g2 @ ''300''"
  have dig: "\<forall>c\<in>set ''100''. isdigit c" "\<forall>c\<in>set ''200''. isdigit c" "\<forall>c\<in>set ''300''. isdigit c"
    by (simp_all add: isdigit_def)
  show ?thesis
  proof (cases "length (filter (\<lambda>c. c = CHR '' '') g1) = 1 \<and> (\<forall>c\<in>set g1. int_space c)")
    case False
    have "\<exists>t\<in>set (split ([] @ ''100'' @ g1 @ ''200'' @ (g2 @ ''300'')) CHR '' ''). py_int t = Inl ValueError"
      by (rule bad_separator_token [OF _ _ _ dig(1) _ dig(2) g1 False]) simp_all
    then obtain t where "t \<in> set (split ?T CHR '' '')" "py_int t = Inl ValueError" by auto
    then have "add_asns (split ?T CHR '' '') {} = Inl ValueError" by (rule add_asns_bad_token)
    then show ?thesis using False by simp
  next
    case ok1: True
    then obtain q1 p1 where s1: "g1 = q1 @ CHR '' '' # p1"
      and q1: "CHR '' '' \<notin> set q1" and p1: "CHR '' '' \<notin> set p1"
      using count_one_decompose [of "CHR '' ''" g1] by blast
    have pad1: "\<forall>c\<in>set q1. int_space c" "\<forall>c\<in>set p1. int_space c"
      using ok1 unfolding s1 by simp_all
    have T: "?T = (''100'' @ q1) @ CHR '' '' # (p1 @ ''200'' @ g2 @ ''300'')"
      by (simp add: s1)
    have first: "split (''100'' @ q1) CHR '' '' = [''100'' @ q1]"
      using q1 by (intro split_no_sep) simp
    show ?thesis
    proof (cases "length (filter (\<lambda>c. c = CHR '' '') g2) = 1 \<and> (\<forall>c\<in>set g2. int_space c)")
      case False
      have "\<exists>t\<in>set (split (p1 @ ''200'' @ g2 @ ''300'' @ []) CHR '' ''). py_int t = Inl ValueError"
        by (rule bad_separator_token [OF pad1(2) p1 _ dig(2) _ dig(3) g2 False]) simp_all
      then obtain t where "t \<in> set (split (p1 @ ''200'' @ g2 @ ''300'') CHR '' '')"
        and bad: "py_int t = Inl ValueError" by auto
      then have "t \<in> set (split ?T CHR '' '')"
        unfolding T by (simp only: set_split_append) simp
      then have "add_asns (split ?T CHR '' '') {} = Inl ValueError"
        using bad by (rule add_asns_bad_token)
      then show ?thesis using False by simp
    next
      case ok2: True
      then obtain q2 p2 where s2: "g2 = q2 @ CHR '' '' # p2"
        and q2: "CHR '' '' \<notin> set q2" and p2: "CHR '' '' \<notin> set p2"
        using count_one_decompose [of "CHR '' ''" g2] by blast
      have pad2: "\<forall>c\<in>set q2. int_space c" "\<forall>c\<in>set p2. int_space c"
        using ok2 unfolding s2 by simp_all
      have R: "p1 @ ''200'' @ g2 @ ''300'' = (p1 @ ''200'' @ q2) @ CHR '' '' # (p2 @ ''300'')"
        by (simp add: s2)
      have second: "split (p1 @ ''200'' @ q2) CHR '' '' = [p1 @ ''200'' @ q2]"
        using p1 q2 by (intro split_no_sep) simp
      have third: "split (p2 @ ''300'') CHR '' '' = [p2 @ ''300'']"
        using p2 by (intro split_no_sep) simp
      have pieces: "split ?T CHR '' '' = [''100'' @ q1, p1 @ ''200'' @ q2, p2 @ ''300'']"
        unfolding T split_append R first second third by simp
      have v1: "py_int (''100'' @ q1) = Inr 100"
        using py_int_padded [of "[]" q1 "''100''"] pad1(1) py_int_100_200_300(1)
        by (simp add: int_space_def)
      have v2: "py_int (p1 @ ''200'' @ q2) = Inr 200"
        using py_int_padded [of p1 q2 "''200''"] pad1(2) pad2(1) py_int_100_200_300(2)
        by (simp add: int_space_def)
      have v3: "py_int (p2 @ ''300'') = Inr 300"
        using py_int_padded [of p2 "[]" "''300''"] pad2(2) py_int_100_200_300(3)
        by (simp add: int_space_def)
      have "add_asns (split ?T CHR '' '') {} = Inr {100, 200, 300}"
        unfolding pieces by (simp only: add_asns.simps v1 v2 v3 sum.case) auto
      then show ?thesis using ok1 ok2 by simp
    qed
  qed
qed

section \<open>Properties of the fetch and cache functions\<close>

lemmas example_defs = example_collector_def example_remote_def ambiguous_remote_def
  broken_remote_def empty_world_def example_download_def example_bz2_readlines_def
  broken_download_def strftime_Ym01_def strftime_Ymd_txt_def four_digits_def two_digits_def
  digit_char_def cache_path_def prepend_def

lemma first_match_find:
  "(case [f x. x \<leftarrow> hrefs, P x] of [] \<Rightarrow> g0 | u # _ \<Rightarrow> g1 u)
   = (case List.find P hrefs of None \<Rightarrow> g0 | Some x \<Rightarrow> g1 (f x))"
  by (induction hrefs) auto

lemma get_url_find:
  assumes "get_hrefs env = Inr hrefs"
  shows "get_url c env w =
     (case List.find (str_contains (strftime_Ym01 (dl_time c))) hrefs of
        None \<Rightarrow> (Inl IndexError, w\<lparr>listings := Suc (listings w)\<rparr>)
      | Some x \<Rightarrow> (Inr (prepend @ x), w\<lparr>listings := Suc (listings w)\<rparr>))"
  unfolding get_url_def Let_def assms sum.case
  by (rule first_match_find)


lemma get_url_files: "files (snd (get_url c env w)) = files w"
  by (auto simp: get_url_def Let_def split: sum.splits list.splits)

lemma with_temp_path_removes: "files (snd (with_temp_path path_str body w)) path_str = None"
  by (simp add: with_temp_path_def split: prod.splits)

lemma write_cache_file_url_error:
  assumes "get_url c env w = (Inl e, w1)"
  shows "write_cache_file c env p w = (Inl e, w1)"
  by (simp add: write_cache_file_def assms)

lemma write_cache_file_temp_removed:
  assumes "get_url c env w = (Inr url, w1)" and "p \<noteq> dir c @ ''/download.bz2''"
  shows "files (snd (write_cache_file c env p w)) (dir c @ ''/download.bz2'') = None"
proof -
  let ?body = "\<lambda>path w2.
                     case download_file env url path w2 of
                       (Inl e, w3) \<Rightarrow> (Inl e, w3)
                     | (Inr _, w3) \<Rightarrow>
                         (case files w3 path of
                            None \<Rightarrow> (Inl FileNotFoundError, w3)
                          | Some payload \<Rightarrow> (bz2_readlines env payload, w3))"
  obtain r w4 where block: "with_temp_path (dir c @ ''/download.bz2'') ?body w1 = (r, w4)"
    by (cases "with_temp_path (dir c @ ''/download.bz2'') ?body w1") auto
  have gone: "files w4 (dir c @ ''/download.bz2'') = None"
    using with_temp_path_removes [of "dir c @ ''/download.bz2''" ?body w1] block by simp
  show ?thesis
    using assms(2) gone by (cases r) (simp_all add: write_cache_file_def assms(1) block)
qed

lemma cache_path_not_temp: "cache_path c \<noteq> dir c @ ''/download.bz2''"
proof
  assume "cache_path c = dir c @ ''/download.bz2''"
  then have "last (cache_path c) = last (dir c @ ''/download.bz2'')" by simp
  then show False by (simp add: cache_path_def strftime_Ymd_txt_def)
qed



lemma read_file_cached:
  assumes "files w (cache_path c) = Some content"
  shows "read_file c env True w = (Inr (map strip (readlines content)), w)"
  using assms by (simp add: read_file_def dom_def)



lemma strip_all_space:
  assumes "\<forall>ch\<in>set l. isspace ch"
  shows "strip l = []"
proof -
  have gone: "dropWhile isspace l = []" using assms by (induction l) auto
  show ?thesis unfolding strip_def gone by simp
qed

lemma run_cached:
  assumes "files w (cache_path c) = Some content"
  shows "run c env True w = (get_ases (map strip (readlines content)), w)"
  by (simp add: run_def read_file_cached [OF assms])

section \<open>The claims about classification\<close>

text \<open>
  C1. The claim: a data line adds a customer-provider link exactly when its third field is
  the transit sentinel \<^verbatim>\<open>-1\<close>, whatever the other fields hold. The code tests
  \<^verbatim>\<open>"-1" in line\<close> on the whole line, so a peer line in the documented form
  \<^verbatim>\<open><peer-as>|<peer-as>|0|<source>\<close> whose source tag holds the two characters
  \<^verbatim>\<open>-1\<close> is sent to \<^verbatim>\<open>_extract_provider_customers\<close>: the line
  \<^verbatim>\<open>1|2|0|x-1\<close> has relationship code \<^verbatim>\<open>0\<close> and yet gives the
  customer-provider link with provider 1 and customer 2, and no peer link.
\<close>

theorem sentinel_in_source_tag_goes_to_cp_links:
  "split ''1|2|0|x-1'' CHR ''|'' = [''1'', ''2'', ''0'', ''x-1'']
   \<and> get_ases [''1|2|0|x-1'']
       = Inr \<lparr>cp_links = {CPLink 1 2}, peer_links = {}, ixps = {}, input_clique = {}\<rparr>"
  by code_simp

text \<open>
  C3, as stated, fails: classifying the seven example lines of the spec raises
  \<^verbatim>\<open>ValueError\<close>. The line \<^verbatim>\<open># input clique\<close> starts with the clique marker
  and has no colon, so the whole line is split on spaces and \<^verbatim>\<open>int("#")\<close> raises.
\<close>

theorem spec_example_raises:
  "get_ases [''# input clique'', ''# ...: 1 2'', ''# IXP ASes'', ''# ...: 50'',
             ''1|3|-1|src'', ''3|1|-1|bogus'', ''2|4|0|src''] = Inl ValueError"
  by code_simp

text \<open>
  C3, amended. A marker line is itself read for its ASNs, so a marker line without ASNs
  raises \<^verbatim>\<open>ValueError\<close>, and a line \<^verbatim>\<open># ...: 1 2\<close> is an ordinary comment that is
  passed over. With the members on the marker lines (\<^verbatim>\<open># input clique: 1 2\<close>,
  \<^verbatim>\<open># IXP ASes: 50\<close>) and the three data lines of the example, classification
  completes with clique {1, 2}, IXPs {50}, the peer link {2, 4} and the customer-provider
  links (1, 3) and (3, 1): the contradictory line is kept as a second directed edge.
\<close>

theorem example_with_members_on_marker_lines:
  "classify_line ''# input clique'' st = Inl ValueError
   \<and> classify_line ''# ...: 1 2'' st = Inr st
   \<and> get_ases [''# input clique: 1 2'', ''# IXP ASes: 50'',
                ''1|3|-1|src'', ''3|1|-1|bogus'', ''2|4|0|src'']
       = Inr \<lparr>cp_links = {CPLink 1 3, CPLink 3 1}, peer_links = {PeerLink 2 4},
              ixps = {50}, input_clique = {1, 2}\<rparr>"
proof -
  have marker: "classify_line ''# input clique'' st = Inl ValueError"
    by (simp add: classify_line_def extract_input_clique_def split_def strip_def isspace_def
        py_int_def int_strip_def int_space_def isdigit_def)
  have comment: "classify_line ''# ...: 1 2'' st = Inr st"
    by (simp add: classify_line_def)
  have whole: "get_ases [''# input clique: 1 2'', ''# IXP ASes: 50'',
                ''1|3|-1|src'', ''3|1|-1|bogus'', ''2|4|0|src'']
       = Inr \<lparr>cp_links = {CPLink 1 3, CPLink 3 1}, peer_links = {PeerLink 2 4},
              ixps = {50}, input_clique = {1, 2}\<rparr>"
    by code_simp
  show ?thesis using marker comment whole by simp
qed

text \<open>
  C5, as stated, fails: the code has no error of its own for a malformed relationship
  line. The failed unpacking of a line with three fields raises the built-in
  \<^verbatim>\<open>ValueError\<close>, the very result of a malformed clique line.
\<close>

theorem malformed_relationship_line_raises_plain_ValueError:
  "get_ases [''1|2|0''] = Inl ValueError
   \<and> get_ases [''1|2|0''] = get_ases [''# input clique: x'']"
  by code_simp

text \<open>
  C5, amended. If the input holds a data line (one that does not start with \<^verbatim>\<open>#\<close>)
  that does not split on the pipe into exactly four fields, or whose first or second
  field \<^verbatim>\<open>int()\<close> rejects, the whole pass raises the built-in \<^verbatim>\<open>ValueError\<close>,
  the error of every malformed line, and \<^verbatim>\<open>_get_ases\<close> returns no sets at all.
\<close>

theorem malformed_relationship_line_aborts:
  assumes "line \<in> set lines" and "\<not> startswith line ''#''"
    and "length (split line CHR ''|'') \<noteq> 4
         \<or> (\<exists>e. py_int (split line CHR ''|'' ! 0) = Inl e)
         \<or> (\<exists>e. py_int (split line CHR ''|'' ! 1) = Inl e)"
  shows "get_ases lines = Inl ValueError"
  unfolding get_ases_def
  using assms(1) classify_malformed_line [OF assms(2,3)] by (rule get_ases_loop_bad_line)

theorem malformed_relationship_line_aborts_witness:
  "''1|2|0'' \<in> set [''1|3|-1|src'', ''1|2|0'', ''2|4|0|src'']
   \<and> \<not> startswith ''1|2|0'' ''#''
   \<and> length (split ''1|2|0'' CHR ''|'') \<noteq> 4
   \<and> get_ases [''1|3|-1|src'', ''1|2|0'', ''2|4|0|src''] = Inl ValueError"
  using malformed_relationship_line_aborts
    [of "''1|2|0''" "[''1|3|-1|src'', ''1|2|0'', ''2|4|0|src'']"]
  by (simp add: split_def)

text \<open>
  C10. An input with an empty line makes \<^verbatim>\<open>_get_ases\<close> raise: the empty line is not a
  comment and does not hold \<^verbatim>\<open>-1\<close>, so it goes to \<^verbatim>\<open>_extract_peers\<close>, where the
  split on the pipe gives one empty piece instead of four. \<^verbatim>\<open>_read_file\<close> strips every
  line, so a cached file with a line of whitespace only makes the whole run raise.
\<close>

theorem blank_line_aborts:
  "([] \<in> set lines \<longrightarrow> get_ases lines = Inl ValueError)
   \<and> \<not> startswith [] ''#'' \<and> \<not> str_contains ''-1'' []
   \<and> split [] CHR ''|'' = [[]]
   \<and> extract_peers [] links = Inl ValueError
   \<and> (files w (cache_path c) = Some content \<and> l \<in> set (readlines content)
        \<and> (\<forall>ch\<in>set l. isspace ch)
      \<longrightarrow> fst (run c env True w) = Inl ValueError)"
proof -
  have "\<And>st. \<exists>e. classify_line [] st = Inl e"
    by (simp add: classify_line_def extract_peers_def split_def)
  then have loop: "get_ases_loop ls st = Inl ValueError" if "[] \<in> set ls" for ls st
    using that get_ases_loop_bad_line by blast
  have whole: "fst (run c env True w) = Inl ValueError"
    if "files w (cache_path c) = Some content" "l \<in> set (readlines content)"
      "\<forall>ch\<in>set l. isspace ch"
  proof -
    have "strip l \<in> set (map strip (readlines content))" using that(2) by simp
    then have "[] \<in> set (map strip (readlines content))"
      using strip_all_space [OF that(3)] by simp
    then show ?thesis using loop by (simp add: run_cached [OF that(1)] get_ases_def)
  qed
  show ?thesis using loop whole by (simp add: get_ases_def extract_peers_def split_def)
qed

theorem blank_line_aborts_witness:
  "[] \<in> set [''1|3|-1|src'', [], ''2|4|0|src'']
   \<and> get_ases [''1|3|-1|src'', [], ''2|4|0|src''] = Inl ValueError
   \<and> fst (run example_collector example_remote True
        \<lparr>files = [cache_path example_collector \<mapsto> ''1|3|-1|src'' @ [CHR 0x0A, CHR 0x0A]],
         listings = 0, downloads = 0\<rparr>) = Inl ValueError"
proof -
  have lines: "[CHR 0x0A] \<in> set (readlines (''1|3|-1|src'' @ [CHR 0x0A, CHR 0x0A]))"
    by (simp add: readlines_def)
  have blank: "\<forall>ch\<in>set [CHR 0x0A]. isspace ch" by (simp add: isspace_def)
  show ?thesis
    using blank_line_aborts [where lines = "[''1|3|-1|src'', [], ''2|4|0|src'']"
        and w = "\<lparr>files = [cache_path example_collector \<mapsto> ''1|3|-1|src'' @ [CHR 0x0A, CHR 0x0A]],
         listings = 0, downloads = 0\<rparr>" and c = example_collector
        and content = "''1|3|-1|src'' @ [CHR 0x0A, CHR 0x0A]" and l = "[CHR 0x0A]"
        and env = example_remote]
      lines blank
    by simp
qed

text \<open>
  C4, as stated, fails: two spaces between tokens make \<^verbatim>\<open>split(" ")\<close> give an empty
  piece, and \<^verbatim>\<open>int("")\<close> raises \<^verbatim>\<open>ValueError\<close>.
\<close>

theorem doubled_space_in_clique_line_raises:
  "get_ases [''# input clique: 100  200 300''] = Inl ValueError"
  by code_simp

text \<open>
  C4, amended. Take a line that starts with the clique marker and whose text after the
  last colon holds the tokens 100, 200 and 300 separated by one or more whitespace
  characters each, with any whitespace before the first and after the last token.
  Classification succeeds, with the clique set {100, 200, 300}, exactly when each of
  the two separators holds exactly one space and, besides it, only characters that
  \<^verbatim>\<open>int()\<close> skips (tab, line feed, vertical tab, form feed, carriage return). With any
  other separator (no space, two or more spaces, or one of the characters 0x1C to 0x1F)
  classification raises \<^verbatim>\<open>ValueError\<close>.
\<close>

theorem clique_line_separators:
  assumes "\<forall>c\<in>set ws1. isspace c" and "\<forall>c\<in>set ws2. isspace c"
    and "g1 \<noteq> []" and "\<forall>c\<in>set g1. isspace c"
    and "g2 \<noteq> []" and "\<forall>c\<in>set g2. isspace c"
  shows "get_ases [''# input clique'' @ mid @ '':'' @ ws1 @ ''100'' @ g1 @ ''200'' @ g2 @ ''300'' @ ws2]
         = (if (length (filter (\<lambda>c. c = CHR '' '') g1) = 1 \<and> (\<forall>c\<in>set g1. int_space c))
               \<and> (length (filter (\<lambda>c. c = CHR '' '') g2) = 1 \<and> (\<forall>c\<in>set g2. int_space c))
            then Inr \<lparr>cp_links = {}, peer_links = {}, ixps = {}, input_clique = {100, 200, 300}\<rparr>
            else Inl ValueError)"
proof -
  define core where "core = ''100'' @ g1 @ ''200'' @ g2 @ ''300''"
  define tail where "tail = ws1 @ core @ ws2"
  define line where "line = ''# input clique'' @ mid @ '':'' @ tail"
  have marker: "startswith line ''# input clique''"
    unfolding line_def startswith_iff by blast
  have "CHR '':'' \<notin> set ws1" and "CHR '':'' \<notin> set ws2"
    and "CHR '':'' \<notin> set g1" and "CHR '':'' \<notin> set g2"
    using assms isspace_not_colon by blast+
  then have no_colon: "CHR '':'' \<notin> set tail" by (simp add: tail_def core_def)
  have shape: "line = (''# input clique'' @ mid) @ CHR '':'' # tail" by (simp add: line_def)
  have after: "last (split line CHR '':'') = tail"
    unfolding shape using no_colon by (rule last_split)
  have stripped: "strip tail = core"
    unfolding tail_def using assms(1,2)
    by (rule strip_padded) (simp_all add: core_def isspace_def)
  have "extract_input_clique line {} = add_asns (split core CHR '' '') {}"
    by (simp add: extract_input_clique_def after stripped)
  then have "get_ases [line]
      = (case add_asns (split core CHR '' '') {} of
           Inl e \<Rightarrow> Inl e
         | Inr s \<Rightarrow> Inr \<lparr>cp_links = {}, peer_links = {}, ixps = {}, input_clique = s\<rparr>)"
    by (simp add: get_ases_def classify_line_def marker split: sum.splits)
  then have "get_ases [line]
         = (if (length (filter (\<lambda>c. c = CHR '' '') g1) = 1 \<and> (\<forall>c\<in>set g1. int_space c))
               \<and> (length (filter (\<lambda>c. c = CHR '' '') g2) = 1 \<and> (\<forall>c\<in>set g2. int_space c))
            then Inr \<lparr>cp_links = {}, peer_links = {}, ixps = {}, input_clique = {100, 200, 300}\<rparr>
            else Inl ValueError)"
    unfolding core_def clique_tokens [OF assms(3,4,5,6)] by (simp split: if_splits)
  then show ?thesis unfolding line_def tail_def core_def by simp
qed

theorem clique_line_separators_witness:
  "get_ases [''# input clique (2021): 100'' @ [CHR 0x09, CHR '' ''] @ ''200''
              @ [CHR '' '', CHR 0x0C] @ ''300'' @ [CHR 0x0A]]
     = Inr \<lparr>cp_links = {}, peer_links = {}, ixps = {}, input_clique = {100, 200, 300}\<rparr>
   \<and> get_ases [''# input clique: 100'' @ [CHR 0x09] @ ''200 300'']
     = Inl ValueError"
  using clique_line_separators [of "[CHR '' '']" "[CHR 0x0A]" "[CHR 0x09, CHR '' '']"
      "[CHR '' '', CHR 0x0C]" "'' (2021)''"]
    clique_line_separators [of "[CHR '' '']" "[]" "[CHR 0x09]" "[CHR '' '']" "[]"]
  by (simp add: isspace_def int_space_def)

text \<open>
  C7. A data line with four fields, integer ASNs in the first two and the transit
  sentinel in the third gives the customer-provider link whose provider is the first
  field and whose customer is the second. The line with the two ASN fields swapped gives
  the link with the roles swapped, and the two results are the same only when the two
  ASNs are the same number.
\<close>

theorem cp_link_direction_preserved:
  assumes "CHR ''|'' \<notin> set f1" and "CHR ''|'' \<notin> set f2" and "CHR ''|'' \<notin> set src"
    and "py_int f1 = Inr a" and "py_int f2 = Inr b"
  shows "get_ases [f1 @ ''|'' @ f2 @ ''|-1|'' @ src]
           = Inr \<lparr>cp_links = {CPLink a b}, peer_links = {}, ixps = {}, input_clique = {}\<rparr>
         \<and> provider_asn (CPLink a b) = a \<and> customer_asn (CPLink a b) = b
         \<and> get_ases [f2 @ ''|'' @ f1 @ ''|-1|'' @ src]
           = Inr \<lparr>cp_links = {CPLink b a}, peer_links = {}, ixps = {}, input_clique = {}\<rparr>
         \<and> (get_ases [f1 @ ''|'' @ f2 @ ''|-1|'' @ src] = get_ases [f2 @ ''|'' @ f1 @ ''|-1|'' @ src]
              \<longleftrightarrow> a = b)"
proof -
  have one: "get_ases [f1 @ ''|'' @ f2 @ ''|-1|'' @ src]
           = Inr \<lparr>cp_links = {CPLink a b}, peer_links = {}, ixps = {}, input_clique = {}\<rparr>"
    unfolding get_ases_def get_ases_loop.simps
    by (simp only: classify_cp_line [OF assms(1,2,3,4,5)]) simp
  have two: "get_ases [f2 @ ''|'' @ f1 @ ''|-1|'' @ src]
           = Inr \<lparr>cp_links = {CPLink b a}, peer_links = {}, ixps = {}, input_clique = {}\<rparr>"
    unfolding get_ases_def get_ases_loop.simps
    by (simp only: classify_cp_line [OF assms(2,1,3,5,4)]) simp
  have "get_ases [f1 @ ''|'' @ f2 @ ''|-1|'' @ src] = get_ases [f2 @ ''|'' @ f1 @ ''|-1|'' @ src]
        \<longleftrightarrow> a = b"
    unfolding one two by auto
  with one two show ?thesis by simp
qed

theorem cp_link_direction_preserved_witness:
  "get_ases [''1|3|-1|src''] = Inr \<lparr>cp_links = {CPLink 1 3}, peer_links = {}, ixps = {}, input_clique = {}\<rparr>
   \<and> get_ases [''3|1|-1|src''] = Inr \<lparr>cp_links = {CPLink 3 1}, peer_links = {}, ixps = {}, input_clique = {}\<rparr>
   \<and> get_ases [''1|3|-1|src''] \<noteq> get_ases [''3|1|-1|src'']"
proof -
  have "py_int ''1'' = Inr 1" and "py_int ''3'' = Inr 3"
    by (simp_all add: py_int_def int_strip_def int_space_def int_max_str_digits_def isdigit_def
        digit_val_def)
  then show ?thesis
    using cp_link_direction_preserved [of "''1''" "''3''" "''src''" 1 3] by simp
qed


text \<open>
  C8. The claim: two peer lines \<^verbatim>\<open>A|B|0|src\<close> and \<^verbatim>\<open>B|A|0|src\<close> in one input give
  exactly one peer link. The dispatch of \<^verbatim>\<open>_get_ases\<close> tests \<^verbatim>\<open>"-1" in line\<close> on
  the whole line, so two such lines whose source tag holds the characters \<^verbatim>\<open>-1\<close>
  never reach \<^verbatim>\<open>_extract_peers\<close>: the lines \<^verbatim>\<open>2|4|0|x-1\<close> and \<^verbatim>\<open>4|2|0|x-1\<close>
  give no peer link and two customer-provider links.
\<close>

theorem peer_lines_with_sentinel_in_source_tag:
  "get_ases [''2|4|0|x-1'', ''4|2|0|x-1'']
   = Inr \<lparr>cp_links = {CPLink 2 4, CPLink 4 2}, peer_links = {}, ixps = {}, input_clique = {}\<rparr>"
  by code_simp

text \<open>
  Where neither line holds the characters \<^verbatim>\<open>-1\<close>, both lines reach
  \<^verbatim>\<open>_extract_peers\<close> and collapse: \<^verbatim>\<open>PeerLink(A, B)\<close> and \<^verbatim>\<open>PeerLink(B, A)\<close> are the
  same entity, the peer-link set of any successful classification of an input holding
  both lines has exactly one element for the pair, and the two lines alone give the
  one-element set in either order.
\<close>

theorem peer_lines_collapse:
  assumes "CHR ''|'' \<notin> set fa" and "CHR ''|'' \<notin> set fb"
    and "CHR ''|'' \<notin> set src1" and "CHR ''|'' \<notin> set src2"
    and "py_int fa = Inr A" and "py_int fb = Inr B"
    and "\<not> str_contains ''-1'' (fa @ ''|'' @ fb @ ''|'' @ ''0'' @ ''|'' @ src1)"
    and "\<not> str_contains ''-1'' (fb @ ''|'' @ fa @ ''|'' @ ''0'' @ ''|'' @ src2)"
    and "fa @ ''|'' @ fb @ ''|'' @ ''0'' @ ''|'' @ src1 \<in> set lines"
    and "fb @ ''|'' @ fa @ ''|'' @ ''0'' @ ''|'' @ src2 \<in> set lines"
    and "get_ases lines = Inr r"
  shows "PeerLink A B = PeerLink B A
         \<and> {p \<in> peer_links r. p = PeerLink A B \<or> p = PeerLink B A} = {PeerLink A B}
         \<and> card {p \<in> peer_links r. p = PeerLink A B \<or> p = PeerLink B A} = 1
         \<and> get_ases [fa @ ''|'' @ fb @ ''|'' @ ''0'' @ ''|'' @ src1,
                      fb @ ''|'' @ fa @ ''|'' @ ''0'' @ ''|'' @ src2]
             = Inr \<lparr>cp_links = {}, peer_links = {PeerLink A B}, ixps = {}, input_clique = {}\<rparr>
         \<and> get_ases [fb @ ''|'' @ fa @ ''|'' @ ''0'' @ ''|'' @ src2,
                      fa @ ''|'' @ fb @ ''|'' @ ''0'' @ ''|'' @ src1]
             = Inr \<lparr>cp_links = {}, peer_links = {PeerLink A B}, ixps = {}, input_clique = {}\<rparr>"
proof -
  have zero: "CHR ''|'' \<notin> set ''0''" by simp
  note l1 = classify_peer_line [OF assms(1,2) zero assms(3,5,6,7)]
  note l2 = classify_peer_line [OF assms(2,1) zero assms(4,6,5,8)]
  have comm: "PeerLink A B = PeerLink B A" by (rule PeerLink_commute)
  have "PeerLink A B \<in> peer_links r"
    using get_ases_loop_peer_member [OF assms(9) l1] assms(11) unfolding get_ases_def by blast
  then have eq: "{p \<in> peer_links r. p = PeerLink A B \<or> p = PeerLink B A} = {PeerLink A B}"
    using comm by auto
  have both: "get_ases [fa @ ''|'' @ fb @ ''|'' @ ''0'' @ ''|'' @ src1,
                      fb @ ''|'' @ fa @ ''|'' @ ''0'' @ ''|'' @ src2]
             = Inr \<lparr>cp_links = {}, peer_links = {PeerLink A B}, ixps = {}, input_clique = {}\<rparr>"
    unfolding get_ases_def get_ases_loop.simps
    by (simp only: l1 l2) (simp add: comm)
  have rev: "get_ases [fb @ ''|'' @ fa @ ''|'' @ ''0'' @ ''|'' @ src2,
                      fa @ ''|'' @ fb @ ''|'' @ ''0'' @ ''|'' @ src1]
             = Inr \<lparr>cp_links = {}, peer_links = {PeerLink A B}, ixps = {}, input_clique = {}\<rparr>"
    unfolding get_ases_def get_ases_loop.simps
    by (simp only: l1 l2) (simp add: comm)
  show ?thesis using comm eq both rev by simp
qed

theorem peer_lines_collapse_witness:
  "get_ases [''2|4|0|src'', ''4|2|0|src'']
     = Inr \<lparr>cp_links = {}, peer_links = {(2, 4)}, ixps = {}, input_clique = {}\<rparr>
   \<and> card {p \<in> {(2, 4)}. p = PeerLink 2 4 \<or> p = PeerLink 4 2} = 1"
proof -
  have ints: "py_int ''2'' = Inr 2" "py_int ''4'' = Inr 4"
    by (simp_all add: py_int_def int_strip_def int_space_def int_max_str_digits_def isdigit_def
        digit_val_def)
  have run: "get_ases [''2|4|0|src'', ''4|2|0|src'']
     = Inr \<lparr>cp_links = {}, peer_links = {(2, 4)}, ixps = {}, input_clique = {}\<rparr>"
    by code_simp
  show ?thesis
    using peer_lines_collapse [of "''2''" "''4''" "''src''" "''src''" 2 4
        "[''2|4|0|src'', ''4|2|0|src'']"
        "\<lparr>cp_links = {}, peer_links = {(2, 4)}, ixps = {}, input_clique = {}\<rparr>"]
      ints run
    by simp
qed


section \<open>The claims about fetching and caching\<close>

text \<open>
  C2, as stated, fails: with two entries of the listing holding the token of the vintage,
  \<^verbatim>\<open>_get_url\<close> does not raise; it returns the first of them.
\<close>

theorem get_url_silently_takes_first_of_two:
  "fst (get_url example_collector ambiguous_remote empty_world)
   = Inr ''http://data.caida.org/datasets/as-relationships/serial-2/20210501.as-rel2.txt.bz2''"
  by (simp add: get_url_def example_defs)

text \<open>
  C2, amended. For every listing and every vintage, \<^verbatim>\<open>_get_url\<close> returns the first
  entry of the listing, in listing order, whose name holds the token of the vintage
  (year, month, \<^verbatim>\<open>01\<close>), prefixed with the address of the directory; it raises
  (\<^verbatim>\<open>IndexError\<close>) exactly when no entry holds the token. With several entries that
  match it returns the first one.
\<close>

theorem get_url_takes_first_match:
  assumes "get_hrefs env = Inr hrefs"
  shows "fst (get_url c env w) =
           (case List.find (str_contains (strftime_Ym01 (dl_time c))) hrefs of
              None \<Rightarrow> Inl IndexError
            | Some x \<Rightarrow> Inr (prepend @ x))
         \<and> (fst (get_url c env w) = Inl IndexError
              \<longleftrightarrow> (\<forall>x\<in>set hrefs. \<not> str_contains (strftime_Ym01 (dl_time c)) x))
         \<and> (\<forall>pre x post. hrefs = pre @ x # post
               \<and> (\<forall>y\<in>set pre. \<not> str_contains (strftime_Ym01 (dl_time c)) y)
               \<and> str_contains (strftime_Ym01 (dl_time c)) x
              \<longrightarrow> fst (get_url c env w) = Inr (prepend @ x))"
proof -
  let ?P = "str_contains (strftime_Ym01 (dl_time c))"
  have shape: "fst (get_url c env w) =
           (case List.find ?P hrefs of None \<Rightarrow> Inl IndexError | Some x \<Rightarrow> Inr (prepend @ x))"
    by (simp add: get_url_find [OF assms] split: option.splits)
  have none: "fst (get_url c env w) = Inl IndexError \<longleftrightarrow> (\<forall>x\<in>set hrefs. \<not> ?P x)"
  proof (cases "List.find ?P hrefs")
    case None
    then have "\<forall>x\<in>set hrefs. \<not> ?P x" by (simp add: find_None_iff)
    then show ?thesis using None shape by simp
  next
    case (Some x)
    then have "x \<in> set hrefs \<and> ?P x" by (auto simp: find_Some_iff)
    then show ?thesis using Some shape by auto
  qed
  have first: "fst (get_url c env w) = Inr (prepend @ x)"
    if "hrefs = pre @ x # post" "\<forall>y\<in>set pre. \<not> ?P y" "?P x" for pre x post
  proof -
    have "List.find ?P (pre @ x # post) = Some x"
      using that(2,3) by (induction pre) auto
    then show ?thesis unfolding shape that(1) by simp
  qed
  show ?thesis using shape none first by blast
qed

theorem get_url_takes_first_match_witness:
  "get_hrefs ambiguous_remote = Inr [''20210501.as-rel2.txt.bz2'', ''20210501.ppdc-ases.txt.bz2'']
   \<and> fst (get_url example_collector ambiguous_remote empty_world)
       = Inr (prepend @ ''20210501.as-rel2.txt.bz2'')
   \<and> fst (get_url example_collector ambiguous_remote empty_world) \<noteq> Inl IndexError"
  using get_url_takes_first_match [of ambiguous_remote
      "[''20210501.as-rel2.txt.bz2'', ''20210501.ppdc-ases.txt.bz2'']" example_collector empty_world]
  by (simp add: example_defs)



text \<open>
  C9. In \<^verbatim>\<open>_write_cache_file\<close> the transfer, the decompression and the decoding are
  all inside the \<^verbatim>\<open>with\<close> block of the temporary path, and the cache file is
  written after it. So once the URL is resolved, the temporary file is absent when
  \<^verbatim>\<open>_write_cache_file\<close> returns or raises, also when the transfer failed and left a
  partial file; and a call that starts without the temporary file ends without it.
\<close>

theorem temp_file_removed_on_every_exit:
  "((\<exists>url. fst (get_url c env w) = Inr url)
      \<longrightarrow> files (snd (write_cache_file c env (cache_path c) w)) (dir c @ ''/download.bz2'') = None)
   \<and> (files w (dir c @ ''/download.bz2'') = None
      \<longrightarrow> files (snd (write_cache_file c env (cache_path c) w)) (dir c @ ''/download.bz2'') = None)"
proof -
  obtain r w1 where url: "get_url c env w = (r, w1)" by (cases "get_url c env w") auto
  have same: "files w1 = files w" using get_url_files [of c env w] url by simp
  show ?thesis
  proof (cases r)
    case (Inl e)
    then show ?thesis using url same by (simp add: write_cache_file_url_error)
  next
    case (Inr u)
    then show ?thesis
      using write_cache_file_temp_removed [OF _ cache_path_not_temp, of c env w u w1] url by simp
  qed
qed

theorem temp_file_removed_on_every_exit_witness:
  "fst (get_url example_collector broken_remote empty_world)
     = Inr (prepend @ ''20210501.as-rel2.txt.bz2'')
   \<and> fst (write_cache_file example_collector broken_remote (cache_path example_collector) empty_world)
     = Inl (ExternalError ''connection reset'')
   \<and> files (snd (write_cache_file example_collector broken_remote (cache_path example_collector)
         empty_world)) ''/tmp/caida/download.bz2'' = None"
proof -
  have url: "fst (get_url example_collector broken_remote empty_world)
     = Inr (prepend @ ''20210501.as-rel2.txt.bz2'')"
    by (simp add: get_url_def example_defs)
  have raised: "fst (write_cache_file example_collector broken_remote
      (cache_path example_collector) empty_world) = Inl (ExternalError ''connection reset'')"
    by (simp add: write_cache_file_def get_url_def with_temp_path_def download_file_def
        example_defs)
  have "dir example_collector @ ''/download.bz2'' = ''/tmp/caida/download.bz2''"
    by (simp add: example_collector_def)
  then show ?thesis
    using temp_file_removed_on_every_exit [of example_collector broken_remote empty_world]
      url raised by simp
qed

end
